theory Spec2Isabelle
  imports Complex_Main
begin

section \<open>The D-Pad 3D visual: data model\<close>

text \<open>
  The development embeds \<^verbatim>\<open>src/visual.ts\<close>. JavaScript numbers that hold
  grid indices, degrees and step multipliers are modelled as \<open>int\<close> (every operation
  the code applies to them is exact on integer-valued doubles of that size). An uncaught
  exception is a value of type \<open>error\<close>, returned as \<open>Inl\<close>.
\<close>

datatype error = TypeError

text \<open>\<^verbatim>\<open>PrimitiveValue\<close> of the host API, restricted to the values a category column of
  the data model can hold (integers, strings, booleans and null).\<close>

datatype PrimitiveValue = PNumber int | PString string | PBoolean bool | PNull

text \<open>
  The host's selection id builder. A selection id records what the builder was given:
  the category column (by the display name of its source) and row index passed to
  \<^verbatim>\<open>withCategory\<close>, and the measure id passed to \<^verbatim>\<open>withMeasure\<close>, which is what
  \<^verbatim>\<open>getSelector().metadata\<close> returns (undefined, here \<open>None\<close>, when no measure was given).
\<close>

record SelectionId =
  withCategory :: "string \<times> nat"
  metadata :: "string option"

record CategoryDataPoint =
  category :: string
  selectionId :: SelectionId

record VisualSettings =
  horizontal :: bool
  vertical :: bool
  incremental :: int

record ViewModel =
  horizontalDataPoints :: "CategoryDataPoint list"
  verticalDataPoints :: "CategoryDataPoint list"
  dataPoints :: "CategoryDataPoint list"
  numberOfAxis :: nat
  sortedBy :: string
  settings :: VisualSettings

text \<open>
  The fields of class \<^verbatim>\<open>Visual\<close> that the movement logic reads or writes. The selection
  manager of the host is modelled by the list of the ids it was asked to select, oldest
  first. \<open>viewModel\<close> and \<open>visualSettings\<close> are undefined (\<open>None\<close>) until the first
  successful \<^verbatim>\<open>update\<close>. The SVG fields are presentational and left out.
\<close>

record Visual =
  visualSettings :: "VisualSettings option"
  selectionManager :: "SelectionId list"
  viewModel :: "ViewModel option"
  lastSelected :: int
  lastHorizontal :: int
  lastVertical :: int
  lastRotation :: int

text \<open>The constructor (lines 225--231): the default pose is \<open>(1, 1, 0)\<close>.\<close>

definition Visual_constructor :: Visual where
  "Visual_constructor =
     \<lparr>visualSettings = None, selectionManager = [], viewModel = None,
      lastSelected = 0, lastHorizontal = 1, lastVertical = 1, lastRotation = 0\<rparr>"

section \<open>Number to string\<close>

text \<open>\<^verbatim>\<open>Number.prototype.toString\<close> on an integer: its decimal digits, with a leading
  minus sign when negative. \<open>digit_char\<close> is only applied to \<open>d < 10\<close>.\<close>

definition digit_char :: "nat \<Rightarrow> char" where
  "digit_char d = ''0123456789'' ! d"

fun digits :: "nat \<Rightarrow> string" where
  "digits n = (if n < 10 then [digit_char n] else digits (n div 10) @ [digit_char (n mod 10)])"

declare digits.simps [simp del]

definition toString_int :: "int \<Rightarrow> string" where
  "toString_int i = (if i < 0 then CHR ''-'' # digits (nat (- i)) else digits (nat i))"

section \<open>The step operation\<close>

text \<open>
  Lines 284--302 of \<^verbatim>\<open>step\<close>: the target pose. The code applies \<^verbatim>\<open>Math.sin\<close>,
  \<^verbatim>\<open>Math.cos\<close> and \<^verbatim>\<open>Math.round\<close> to doubles; the model applies \<open>sin\<close>, \<open>cos\<close> and
  \<open>round\<close> to reals (both roundings take a half towards plus infinity). At the eight
  rotations of the data model, the multiples of 45 in \<open>[0, 360)\<close>, the rounded double is
  the rounded real. Elsewhere the two can differ: at 30 degrees the double sine is just
  below one half and rounds to 0, while the real sine is one half and rounds to 1. So
  the translate branch stands for the code only at the rotations of the data model, and
  the theorem about the translate target is restricted to them. The rotate
  branch and the fall-through are integer arithmetic and exact.
\<close>

definition newPose :: "string \<Rightarrow> int \<Rightarrow> Visual \<Rightarrow> int \<times> int \<times> int" where
  "newPose direction stp v =
     (let newHorizontal = lastHorizontal v;
          newVertical = lastVertical v;
          newRotation = lastRotation v;
          displacement = (1::int);
          rotationStep = (45::int)
      in
        if direction = ''d'' then
          (newHorizontal
             + round (real_of_int displacement * sin (real_of_int (lastRotation v) * pi / 180)) * stp,
           newVertical
             + round (real_of_int displacement * cos (real_of_int (lastRotation v) * pi / 180)) * stp,
           newRotation)
        else if direction = ''r'' then
          (let r = newRotation + rotationStep * stp
           in (newHorizontal, newVertical, if r < 0 then r + 360 else r mod 360))
        else (newHorizontal, newVertical, newRotation))"

text \<open>Lines 308--310: the key the target pose is looked up by.\<close>

definition positionMetadata :: "int \<times> int \<times> int \<Rightarrow> string" where
  "positionMetadata p =
     (case p of (newHorizontal, newVertical, newRotation) \<Rightarrow>
        ''X'' @ toString_int newHorizontal @ ''Y'' @ toString_int newVertical
          @ ''V'' @ toString_int newRotation)"

text \<open>Lines 315--323: the linear scan; the first data point whose selector metadata
  equals the key wins.\<close>

fun findId :: "string \<Rightarrow> CategoryDataPoint list \<Rightarrow> SelectionId option" where
  "findId newPositionMetadata [] = None"
| "findId newPositionMetadata (dataPoint # rest) =
     (if metadata (selectionId dataPoint) = Some newPositionMetadata
      then Some (selectionId dataPoint)
      else findId newPositionMetadata rest)"

text \<open>
  The whole of \<^verbatim>\<open>step\<close> (lines 282--332). Reading \<^verbatim>\<open>this.viewModel.dataPoints\<close>
  before any successful update raises a TypeError; nothing has been written by then.
\<close>

definition step :: "string \<Rightarrow> int \<Rightarrow> Visual \<Rightarrow> error + Visual" where
  "step direction stp v =
     (case newPose direction stp v of (newHorizontal, newVertical, newRotation) \<Rightarrow>
        (case viewModel v of
           None \<Rightarrow> Inl TypeError
         | Some vm \<Rightarrow>
             (case findId (positionMetadata (newHorizontal, newVertical, newRotation))
                     (dataPoints vm) of
                None \<Rightarrow> Inr v
              | Some newSelectionId \<Rightarrow>
                  Inr (v\<lparr>selectionManager := selectionManager v @ [newSelectionId],
                         lastHorizontal := newHorizontal,
                         lastVertical := newVertical,
                         lastRotation := newRotation\<rparr>))))"

text \<open>The object after a call: an exception leaves the fields as they were.\<close>

definition after :: "Visual \<Rightarrow> error + Visual \<Rightarrow> Visual" where
  "after v res = (case res of Inl e \<Rightarrow> v | Inr v' \<Rightarrow> v')"

text \<open>The pose held by the object.\<close>

definition pose :: "Visual \<Rightarrow> int \<times> int \<times> int" where
  "pose v = (lastHorizontal v, lastVertical v, lastRotation v)"

section \<open>The data refresh\<close>

text \<open>
  The part of the host's \<^verbatim>\<open>DataView\<close> that \<^verbatim>\<open>visualTransform\<close> reads:
  \<^verbatim>\<open>metadata.columns\<close> (the role names a column carries and its display name),
  \<^verbatim>\<open>metadata.objects\<close> (opaque, read only through \<^verbatim>\<open>getValue\<close>) and
  \<^verbatim>\<open>categorical.categories\<close>, which is \<open>None\<close> when the host supplies no categorical
  data (\<^verbatim>\<open>categorical\<close> or \<^verbatim>\<open>categories\<close> undefined). \<^verbatim>\<open>options.dataViews\<close> is a list
  of data views; the empty list also stands for an undefined one.
\<close>

record DataViewMetadataColumn =
  roles :: "string list"
  displayName :: string

record DataViewCategoryColumn =
  source :: DataViewMetadataColumn
  values' :: "PrimitiveValue list"

record 'o DataView =
  columns :: "DataViewMetadataColumn list"
  objects :: 'o
  categories :: "DataViewCategoryColumn list option"

text \<open>Lines 95--107: the display names of the three roles and \<^verbatim>\<open>sortedBy\<close>; a later
  column with the same role overwrites an earlier one.\<close>

fun scanColumns ::
  "nat \<Rightarrow> DataViewMetadataColumn list \<Rightarrow> string \<times> string \<times> string \<times> string
     \<Rightarrow> string \<times> string \<times> string \<times> string" where
  "scanColumns i [] names = names"
| "scanColumns i (c # cs) (horizontalDisplayName, verticalDisplayName, rotationDisplayName, sortedBy') =
     scanColumns (i + 1) cs
       (if ''horizontalCategory'' \<in> set (roles c) then
          (displayName c, verticalDisplayName, rotationDisplayName,
           if i = 0 then ''horizontal'' else sortedBy')
        else if ''verticalCategory'' \<in> set (roles c) then
          (horizontalDisplayName, displayName c, rotationDisplayName,
           if i = 0 then ''vertical'' else sortedBy')
        else if ''rotationCategory'' \<in> set (roles c) then
          (horizontalDisplayName, verticalDisplayName, displayName c, sortedBy')
        else (horizontalDisplayName, verticalDisplayName, rotationDisplayName, sortedBy'))"

text \<open>Lines 109--117: the indices of the three categories, \<open>-1\<close> when none has the
  display name.\<close>

fun scanCategories ::
  "int \<Rightarrow> DataViewCategoryColumn list \<Rightarrow> string \<times> string \<times> string
     \<Rightarrow> int \<times> int \<times> int \<Rightarrow> int \<times> int \<times> int" where
  "scanCategories i [] names idx = idx"
| "scanCategories i (c # cs) (horizontalDisplayName, verticalDisplayName, rotationDisplayName)
       (horizontalIdxInCategories, verticalIdxInCategories, rotationIdxInCategories) =
     scanCategories (i + 1) cs (horizontalDisplayName, verticalDisplayName, rotationDisplayName)
       (if displayName (source c) = horizontalDisplayName then
          (i, verticalIdxInCategories, rotationIdxInCategories)
        else if displayName (source c) = verticalDisplayName then
          (horizontalIdxInCategories, i, rotationIdxInCategories)
        else if displayName (source c) = rotationDisplayName then
          (horizontalIdxInCategories, verticalIdxInCategories, i)
        else (horizontalIdxInCategories, verticalIdxInCategories, rotationIdxInCategories))"

text \<open>Lines 128--144: a category variable is assigned only under the guard
  \<^verbatim>\<open>idx > -1\<close> and stays undefined otherwise.\<close>

definition categoryAt :: "DataViewCategoryColumn list \<Rightarrow> int \<Rightarrow> DataViewCategoryColumn option" where
  "categoryAt cats idx =
     (if idx > - 1 \<and> nat idx < length cats then Some (cats ! nat idx) else None)"

text \<open>\<^verbatim>\<open>x + ''\<close> and \<^verbatim>\<open>x.toString()\<close> on a primitive value; the second raises on null.\<close>

fun plusEmpty :: "PrimitiveValue \<Rightarrow> string" where
  "plusEmpty (PNumber n) = toString_int n"
| "plusEmpty (PString s) = s"
| "plusEmpty (PBoolean b) = (if b then ''true'' else ''false'')"
| "plusEmpty PNull = ''null''"

fun toString :: "PrimitiveValue \<Rightarrow> error + string" where
  "toString PNull = Inl TypeError"
| "toString x = Inr (plusEmpty x)"

text \<open>\<^verbatim>\<open>cat.values[i].toString()\<close>: raises when \<^verbatim>\<open>cat\<close> is undefined, when the row is
  out of range (\<^verbatim>\<open>values[i]\<close> undefined) and when the value is null.\<close>

definition valueString :: "DataViewCategoryColumn option \<Rightarrow> nat \<Rightarrow> error + string" where
  "valueString cat i =
     (case cat of
        None \<Rightarrow> Inl TypeError
      | Some c \<Rightarrow> (if i < length (values' c) then toString (values' c ! i) else Inl TypeError))"

text \<open>Lines 165--176: one data point per value of category 0. The body dereferences all
  three category variables without a guard.\<close>

fun transformValues ::
  "nat \<Rightarrow> PrimitiveValue list \<Rightarrow> DataViewCategoryColumn option \<Rightarrow> DataViewCategoryColumn option
     \<Rightarrow> DataViewCategoryColumn option \<Rightarrow> error + CategoryDataPoint list" where
  "transformValues i [] horizontalCategory verticalCategory rotationCategory = Inr []"
| "transformValues i (x # xs) horizontalCategory verticalCategory rotationCategory =
     (case horizontalCategory of
        None \<Rightarrow> Inl TypeError
      | Some hc \<Rightarrow>
     (case valueString horizontalCategory i of
        Inl e \<Rightarrow> Inl e
      | Inr hs \<Rightarrow>
     (case valueString verticalCategory i of
        Inl e \<Rightarrow> Inl e
      | Inr vs \<Rightarrow>
     (case valueString rotationCategory i of
        Inl e \<Rightarrow> Inl e
      | Inr rs \<Rightarrow>
     (case transformValues (i + 1) xs horizontalCategory verticalCategory rotationCategory of
        Inl e \<Rightarrow> Inl e
      | Inr rest \<Rightarrow>
          Inr (\<lparr>category = plusEmpty x,
                selectionId = \<lparr>withCategory = (displayName (source hc), i),
                               metadata = Some (''X'' @ hs @ ''Y'' @ vs @ ''V'' @ rs)\<rparr>\<rparr>
               # rest))))))"

text \<open>Lines 180--187 and 192--199: the per-axis lists, built only under the guard.\<close>

definition axisDataPoints :: "DataViewCategoryColumn \<Rightarrow> CategoryDataPoint list" where
  "axisDataPoints c =
     map (\<lambda>(i, x). \<lparr>category = plusEmpty x,
                     selectionId = \<lparr>withCategory = (displayName (source c), i), metadata = None\<rparr>\<rparr>)
       (enumerate 0 (values' c))"

text \<open>
  \<^verbatim>\<open>visualTransform\<close> (lines 83--210). \<^verbatim>\<open>getValue\<close> is defined outside
  \<^verbatim>\<open>visual.ts\<close>, so the reads of the three settings are parameters: \<open>getValueB\<close> and
  \<open>getValueN\<close> take the objects, the object name, the property name and the default.
\<close>

definition visualTransform ::
  "('o \<Rightarrow> string \<Rightarrow> string \<Rightarrow> bool \<Rightarrow> bool) \<Rightarrow> ('o \<Rightarrow> string \<Rightarrow> string \<Rightarrow> int \<Rightarrow> int)
     \<Rightarrow> 'o DataView list \<Rightarrow> error + ViewModel" where
  "visualTransform getValueB getValueN dataViews =
     (case dataViews of
        [] \<Rightarrow> Inl TypeError
      | dataView # _ \<Rightarrow>
     (case scanColumns 0 (columns dataView) ([], [], [], []) of
        (horizontalDisplayName, verticalDisplayName, rotationDisplayName, sortedBy') \<Rightarrow>
     (case categories dataView of
        None \<Rightarrow> Inl TypeError
      | Some cats \<Rightarrow>
     (case scanCategories 0 cats (horizontalDisplayName, verticalDisplayName, rotationDisplayName)
             (- 1, - 1, - 1) of
        (horizontalIdxInCategories, verticalIdxInCategories, rotationIdxInCategories) \<Rightarrow>
     (let horizontalCategory =
            (if horizontalIdxInCategories > - 1 then categoryAt cats horizontalIdxInCategories else None);
          verticalCategory =
            (if verticalIdxInCategories > - 1 then categoryAt cats verticalIdxInCategories else None);
          rotationCategory =
            (if rotationIdxInCategories > - 1 then categoryAt cats rotationIdxInCategories else None);
          numberOfAxis' =
            (if horizontalIdxInCategories > - 1 then 1 else 0)
              + (if verticalIdxInCategories > - 1 then 1 else 0)
              + (if rotationIdxInCategories > - 1 then 1 else (0::nat));
          visualSettings' =
            \<lparr>horizontal = getValueB (objects dataView) ''settings'' ''horizontal'' True,
             vertical = getValueB (objects dataView) ''settings'' ''vertical'' True,
             incremental = getValueN (objects dataView) ''settings'' ''incremental'' 1\<rparr>
      in
     (case cats of
        [] \<Rightarrow> Inl TypeError
      | c0 # _ \<Rightarrow>
     (case transformValues 0 (values' c0) horizontalCategory verticalCategory rotationCategory of
        Inl e \<Rightarrow> Inl e
      | Inr dataPoints' \<Rightarrow>
          Inr \<lparr>horizontalDataPoints =
                 (case horizontalCategory of None \<Rightarrow> [] | Some c \<Rightarrow> axisDataPoints c),
               verticalDataPoints =
                 (case verticalCategory of None \<Rightarrow> [] | Some c \<Rightarrow> axisDataPoints c),
               dataPoints = dataPoints',
               numberOfAxis = numberOfAxis',
               sortedBy = sortedBy',
               settings = visualSettings'\<rparr>)))))))"

text \<open>\<^verbatim>\<open>update\<close> (lines 261--264; the rest of the method sets SVG attributes). The view
  model and the settings are replaced wholesale; the pose fields are not touched. When
  \<^verbatim>\<open>visualTransform\<close> raises, the assignment never happens.\<close>

definition update ::
  "('o \<Rightarrow> string \<Rightarrow> string \<Rightarrow> bool \<Rightarrow> bool) \<Rightarrow> ('o \<Rightarrow> string \<Rightarrow> string \<Rightarrow> int \<Rightarrow> int)
     \<Rightarrow> 'o DataView list \<Rightarrow> Visual \<Rightarrow> error + Visual" where
  "update getValueB getValueN options v =
     (case visualTransform getValueB getValueN options of
        Inl e \<Rightarrow> Inl e
      | Inr vm \<Rightarrow> Inr (v\<lparr>viewModel := Some vm, visualSettings := Some (settings vm)\<rparr>))"

section \<open>The control's lifetime\<close>

text \<open>The four buttons of the constructor (lines 240--257) and what a click calls.\<close>

datatype button = ButtonUp | ButtonDown | ButtonLeft | ButtonRight

fun buttonStep :: "button \<Rightarrow> int" where
  "buttonStep ButtonUp = 1"
| "buttonStep ButtonDown = - 1"
| "buttonStep ButtonLeft = - 1"
| "buttonStep ButtonRight = 1"

fun buttonDirection :: "button \<Rightarrow> string" where
  "buttonDirection ButtonUp = ''d''"
| "buttonDirection ButtonDown = ''d''"
| "buttonDirection ButtonLeft = ''r''"
| "buttonDirection ButtonRight = ''r''"

definition click :: "button \<Rightarrow> Visual \<Rightarrow> error + Visual" where
  "click b v = step (buttonDirection b) (buttonStep b) v"

text \<open>
  What happens to the control: the host refreshes it, or a move is made. A move is a call
  of \<^verbatim>\<open>step\<close> with any direction string and a step of \<open>1\<close> or \<open>-1\<close>, which covers the
  four clicks.
\<close>

datatype 'o event = Refresh "'o DataView list" | Move string int

fun legal :: "'o event \<Rightarrow> bool" where
  "legal (Refresh options) = True"
| "legal (Move direction stp) = (stp = 1 \<or> stp = - 1)"

text \<open>The control after a move and after a refresh, whether the call returned or raised.\<close>

definition move :: "string \<Rightarrow> int \<Rightarrow> Visual \<Rightarrow> Visual" where
  "move direction stp v = after v (step direction stp v)"

definition refresh ::
  "('o \<Rightarrow> string \<Rightarrow> string \<Rightarrow> bool \<Rightarrow> bool) \<Rightarrow> ('o \<Rightarrow> string \<Rightarrow> string \<Rightarrow> int \<Rightarrow> int)
     \<Rightarrow> 'o DataView list \<Rightarrow> Visual \<Rightarrow> Visual" where
  "refresh getValueB getValueN options v = after v (update getValueB getValueN options v)"

fun exec ::
  "('o \<Rightarrow> string \<Rightarrow> string \<Rightarrow> bool \<Rightarrow> bool) \<Rightarrow> ('o \<Rightarrow> string \<Rightarrow> string \<Rightarrow> int \<Rightarrow> int)
     \<Rightarrow> 'o event \<Rightarrow> Visual \<Rightarrow> Visual" where
  "exec getValueB getValueN (Refresh options) v = refresh getValueB getValueN options v"
| "exec getValueB getValueN (Move direction stp) v = move direction stp v"

inductive reachable ::
  "('o \<Rightarrow> string \<Rightarrow> string \<Rightarrow> bool \<Rightarrow> bool) \<Rightarrow> ('o \<Rightarrow> string \<Rightarrow> string \<Rightarrow> int \<Rightarrow> int)
     \<Rightarrow> Visual \<Rightarrow> bool"
  for getValueB :: "'o \<Rightarrow> string \<Rightarrow> string \<Rightarrow> bool \<Rightarrow> bool"
  and getValueN :: "'o \<Rightarrow> string \<Rightarrow> string \<Rightarrow> int \<Rightarrow> int" where
  reachable_init: "reachable getValueB getValueN Visual_constructor"
| reachable_exec:
    "reachable getValueB getValueN v \<Longrightarrow> legal (e :: 'o event)
       \<Longrightarrow> reachable getValueB getValueN (exec getValueB getValueN e v)"

section \<open>Notions of the specification\<close>

text \<open>The PositionTable of the control: the data points of the current view model, none
  before the first successful refresh.\<close>

definition positionTable :: "Visual \<Rightarrow> CategoryDataPoint list" where
  "positionTable v = (case viewModel v of None \<Rightarrow> [] | Some vm \<Rightarrow> dataPoints vm)"

text \<open>A record matches a pose when its selector metadata is the key of the pose, which is
  the test of the scan.\<close>

definition matches :: "int \<times> int \<times> int \<Rightarrow> CategoryDataPoint \<Rightarrow> bool" where
  "matches p dp = (metadata (selectionId dp) = Some (positionMetadata p))"

text \<open>A move commits when its target pose matches a record of the table.\<close>

definition commits :: "string \<Rightarrow> int \<Rightarrow> Visual \<Rightarrow> bool" where
  "commits direction stp v = list_ex (matches (newPose direction stp v)) (positionTable v)"

text \<open>The rotations of the data model.\<close>

definition rotation_ok :: "int \<Rightarrow> bool" where
  "rotation_ok r = (0 \<le> r \<and> r < 360 \<and> 45 dvd r)"

text \<open>The displacement unit vector as the specification words it.\<close>

definition dh :: "int \<Rightarrow> int" where
  "dh rotation = round (sin (real_of_int rotation * pi / 180))"

definition dv :: "int \<Rightarrow> int" where
  "dv rotation = round (cos (real_of_int rotation * pi / 180))"

section \<open>Example data\<close>

text \<open>
  A data source with one column per role, named X, Y and V as in the README, and one row
  per position. The objects of the examples are the step increment the user has set, if
  any; the boolean settings are left at their defaults.
\<close>

definition exampleGetValueB :: "int option \<Rightarrow> string \<Rightarrow> string \<Rightarrow> bool \<Rightarrow> bool" where
  "exampleGetValueB objs objectName propertyName defaultValue = defaultValue"

definition exampleGetValueN :: "int option \<Rightarrow> string \<Rightarrow> string \<Rightarrow> int \<Rightarrow> int" where
  "exampleGetValueN objs objectName propertyName defaultValue =
     (case objs of None \<Rightarrow> defaultValue | Some n \<Rightarrow> n)"

definition exampleColumn :: "string \<Rightarrow> string \<Rightarrow> DataViewMetadataColumn" where
  "exampleColumn role name = \<lparr>roles = [role], displayName = name\<rparr>"

definition exampleView :: "int option \<Rightarrow> (int \<times> int \<times> int) list \<Rightarrow> int option DataView" where
  "exampleView objs rows =
     \<lparr>columns = [exampleColumn ''horizontalCategory'' ''X'',
                 exampleColumn ''verticalCategory'' ''Y'',
                 exampleColumn ''rotationCategory'' ''V''],
      objects = objs,
      categories = Some
        [\<lparr>source = exampleColumn ''horizontalCategory'' ''X'',
          values' = map (\<lambda>(h, v, r). PNumber h) rows\<rparr>,
         \<lparr>source = exampleColumn ''verticalCategory'' ''Y'',
          values' = map (\<lambda>(h, v, r). PNumber v) rows\<rparr>,
         \<lparr>source = exampleColumn ''rotationCategory'' ''V'',
          values' = map (\<lambda>(h, v, r). PNumber r) rows\<rparr>]\<rparr>"

text \<open>The example data with the rotation role left unmapped.\<close>

definition exampleViewNoRotation :: "(int \<times> int) list \<Rightarrow> int option DataView" where
  "exampleViewNoRotation rows =
     \<lparr>columns = [exampleColumn ''horizontalCategory'' ''X'',
                 exampleColumn ''verticalCategory'' ''Y''],
      objects = None,
      categories = Some
        [\<lparr>source = exampleColumn ''horizontalCategory'' ''X'',
          values' = map (\<lambda>(h, v). PNumber h) rows\<rparr>,
         \<lparr>source = exampleColumn ''verticalCategory'' ''Y'',
          values' = map (\<lambda>(h, v). PNumber v) rows\<rparr>]\<rparr>"

text \<open>A refresh with example data, and a fresh control after one such refresh.\<close>

definition exampleRefresh :: "int option \<Rightarrow> (int \<times> int \<times> int) list \<Rightarrow> Visual \<Rightarrow> Visual" where
  "exampleRefresh objs rows v =
     refresh exampleGetValueB exampleGetValueN [exampleView objs rows] v"

definition loaded :: "int option \<Rightarrow> (int \<times> int \<times> int) list \<Rightarrow> Visual" where
  "loaded objs rows = exampleRefresh objs rows Visual_constructor"

section \<open>History and settings\<close>

text \<open>
  Reachability with a record of history: the second component is the position table that
  was current when the last move committed, \<open>None\<close> while no move has committed.
\<close>

inductive reachable_since ::
  "('o \<Rightarrow> string \<Rightarrow> string \<Rightarrow> bool \<Rightarrow> bool) \<Rightarrow> ('o \<Rightarrow> string \<Rightarrow> string \<Rightarrow> int \<Rightarrow> int)
     \<Rightarrow> Visual \<Rightarrow> CategoryDataPoint list option \<Rightarrow> bool"
  for getValueB :: "'o \<Rightarrow> string \<Rightarrow> string \<Rightarrow> bool \<Rightarrow> bool"
  and getValueN :: "'o \<Rightarrow> string \<Rightarrow> string \<Rightarrow> int \<Rightarrow> int" where
  since_init: "reachable_since getValueB getValueN Visual_constructor None"
| since_refresh:
    "reachable_since getValueB getValueN v T
       \<Longrightarrow> reachable_since getValueB getValueN
             (refresh getValueB getValueN (options :: 'o DataView list) v) T"
| since_commit:
    "reachable_since getValueB getValueN v T \<Longrightarrow> stp = 1 \<or> stp = - 1
       \<Longrightarrow> commits direction stp v
       \<Longrightarrow> reachable_since getValueB getValueN (move direction stp v) (Some (positionTable v))"
| since_noop:
    "reachable_since getValueB getValueN v T \<Longrightarrow> stp = 1 \<or> stp = - 1
       \<Longrightarrow> \<not> commits direction stp v
       \<Longrightarrow> reachable_since getValueB getValueN (move direction stp v) T"

text \<open>The control with other settings in both places that hold them.\<close>

definition withSettings :: "VisualSettings \<Rightarrow> Visual \<Rightarrow> Visual" where
  "withSettings st v =
     v\<lparr>visualSettings := Some st,
       viewModel := map_option (\<lambda>vm. vm\<lparr>settings := st\<rparr>) (viewModel v)\<rparr>"

section \<open>Auxiliary facts\<close>

subsection \<open>Evaluating decimal digits\<close>

lemma digits_small [simp]: "n < 10 \<Longrightarrow> digits n = [digit_char n]"
  by (simp add: digits.simps)

lemma digits_large [simp]:
  "\<not> n < 10 \<Longrightarrow> digits n = digits (n div 10) @ [digit_char (n mod 10)]"
  by (subst digits.simps) simp

subsection \<open>Rounded sines and cosines at the multiples of 45 degrees\<close>

lemma sqrt2_bounds: "1 < sqrt 2" "sqrt 2 < 2"
  by (simp_all add: real_less_lsqrt)

lemma round_half_sqrt2: "round (sqrt 2 / 2) = 1" "round (- (sqrt 2 / 2)) = - 1"
proof -
  have "1 \<le> sqrt 2 / 2 + 1 / 2" "sqrt 2 / 2 + 1 / 2 < 2"
    using sqrt2_bounds by linarith+
  then show "round (sqrt 2 / 2) = 1"
    unfolding round_def by (simp add: floor_eq_iff)
  have "- 1 \<le> - (sqrt 2 / 2) + 1 / 2" "- (sqrt 2 / 2) + 1 / 2 < 0"
    using sqrt2_bounds by linarith+
  then show "round (- (sqrt 2 / 2)) = - 1"
    unfolding round_def by (simp add: floor_eq_iff)
qed

lemma round_minus_one: "round (- 1 :: real) = - 1"
  using round_of_int [of "- 1", where ?'a = real] by simp

lemma sin_octants:
  "sin (3 * pi / 4) = sqrt 2 / 2" "sin (5 * pi / 4) = - (sqrt 2 / 2)"
  "sin (3 * pi / 2) = - 1" "sin (7 * pi / 4) = - (sqrt 2 / 2)"
proof -
  have e3: "(3 * pi / 4 :: real) = pi - pi / 4" by simp
  have e5: "(5 * pi / 4 :: real) = pi / 4 + pi" by simp
  have e6: "(3 * pi / 2 :: real) = pi / 2 + pi" by simp
  have e7: "(7 * pi / 4 :: real) = 2 * pi - pi / 4" by simp
  show "sin (3 * pi / 4) = sqrt 2 / 2" by (simp only: e3 sin_pi_minus sin_45)
  show "sin (5 * pi / 4) = - (sqrt 2 / 2)" by (simp only: e5 sin_periodic_pi sin_45)
  show "sin (3 * pi / 2) = - 1" by (simp only: e6 sin_periodic_pi sin_pi_half)
  show "sin (7 * pi / 4) = - (sqrt 2 / 2)" by (simp only: e7 sin_2pi_minus sin_45)
qed

lemma cos_octants:
  "cos (3 * pi / 4) = - (sqrt 2 / 2)" "cos (5 * pi / 4) = - (sqrt 2 / 2)"
  "cos (3 * pi / 2) = 0" "cos (7 * pi / 4) = sqrt 2 / 2"
proof -
  have e3: "(3 * pi / 4 :: real) = pi - pi / 4" by simp
  have e5: "(5 * pi / 4 :: real) = pi / 4 + pi" by simp
  have e6: "(3 * pi / 2 :: real) = pi / 2 + pi" by simp
  have e7: "(7 * pi / 4 :: real) = 2 * pi - pi / 4" by simp
  show "cos (3 * pi / 4) = - (sqrt 2 / 2)" by (simp only: e3 cos_pi_minus cos_45)
  show "cos (5 * pi / 4) = - (sqrt 2 / 2)" by (simp only: e5 cos_periodic_pi cos_45)
  show "cos (3 * pi / 2) = 0" by (simp only: e6 cos_periodic_pi cos_pi_half minus_zero)
  show "cos (7 * pi / 4) = sqrt 2 / 2" by (simp only: e7 cos_2pi_minus cos_45)
qed

text \<open>The eight facings: north, north-east, east, and so on clockwise.\<close>

lemma dh_table:
  "dh 0 = 0" "dh 45 = 1" "dh 90 = 1" "dh 135 = 1"
  "dh 180 = 0" "dh 225 = - 1" "dh 270 = - 1" "dh 315 = - 1"
  unfolding dh_def
  by (simp_all add: sin_45 sin_octants round_half_sqrt2 round_minus_one)

lemma dv_table:
  "dv 0 = 1" "dv 45 = 1" "dv 90 = 0" "dv 135 = - 1"
  "dv 180 = - 1" "dv 225 = - 1" "dv 270 = 0" "dv 315 = 1"
  unfolding dv_def
  by (simp_all add: cos_45 cos_octants round_half_sqrt2 round_minus_one)

subsection \<open>The target pose\<close>

lemma newPose_translate:
  "newPose ''d'' stp v =
     (lastHorizontal v + dh (lastRotation v) * stp,
      lastVertical v + dv (lastRotation v) * stp, lastRotation v)"
  by (simp add: newPose_def dh_def dv_def)

lemma newPose_rotate:
  "newPose ''r'' stp v =
     (lastHorizontal v, lastVertical v,
      if lastRotation v + 45 * stp < 0 then lastRotation v + 45 * stp + 360
      else (lastRotation v + 45 * stp) mod 360)"
  by (simp add: newPose_def Let_def)

lemma newPose_other:
  "direction \<noteq> ''d'' \<Longrightarrow> direction \<noteq> ''r'' \<Longrightarrow> newPose direction stp v = pose v"
  by (simp add: newPose_def pose_def)

subsection \<open>The scan and the commit\<close>

lemma findId_find:
  "findId (positionMetadata p) tbl = map_option selectionId (List.find (matches p) tbl)"
  by (induction tbl) (simp_all add: matches_def)

lemma commits_iff_find:
  "commits direction stp v
     \<longleftrightarrow> (\<exists>first. List.find (matches (newPose direction stp v)) (positionTable v) = Some first)"
  by (cases "List.find (matches (newPose direction stp v)) (positionTable v)")
     (auto simp: commits_def list_ex_iff find_None_iff find_Some_iff)

lemma move_absent: "\<not> commits direction stp v \<Longrightarrow> move direction stp v = v"
  by (cases "newPose direction stp v")
     (auto simp: move_def step_def after_def commits_iff_find positionTable_def findId_find
           split: option.splits)

lemma step_present:
  assumes "List.find (matches (newPose direction stp v)) (positionTable v) = Some first"
      and "newPose direction stp v = (h, w, r)"
  shows "step direction stp v =
           Inr (v\<lparr>selectionManager := selectionManager v @ [selectionId first],
                  lastHorizontal := h, lastVertical := w, lastRotation := r\<rparr>)"
proof (cases "viewModel v")
  case None
  with assms(1) show ?thesis by (simp add: positionTable_def)
next
  case (Some vm)
  with assms have "findId (positionMetadata (h, w, r)) (dataPoints vm) = Some (selectionId first)"
    by (simp add: findId_find positionTable_def)
  with Some assms(2) show ?thesis
    by (simp add: step_def)
qed

lemma move_present:
  assumes "List.find (matches (newPose direction stp v)) (positionTable v) = Some first"
      and "newPose direction stp v = (h, w, r)"
  shows "move direction stp v =
           v\<lparr>selectionManager := selectionManager v @ [selectionId first],
             lastHorizontal := h, lastVertical := w, lastRotation := r\<rparr>"
  using step_present [OF assms] by (simp add: move_def after_def)

lemma find_Some_member:
  "List.find P xs = Some x \<Longrightarrow> x \<in> set xs \<and> P x"
  by (auto simp: find_Some_iff)

lemma pose_move_cases:
  "pose (move direction stp v) = (if commits direction stp v then newPose direction stp v else pose v)"
proof (cases "commits direction stp v")
  case False
  then show ?thesis by (simp add: move_absent)
next
  case True
  then obtain first where
    f: "List.find (matches (newPose direction stp v)) (positionTable v) = Some first"
    by (auto simp: commits_iff_find)
  obtain h w r where p: "newPose direction stp v = (h, w, r)"
    by (cases "newPose direction stp v")
  show ?thesis using True move_present [OF f p] p by (simp add: pose_def)
qed

lemma positionTable_move [simp]: "positionTable (move direction stp v) = positionTable v"
proof (cases "commits direction stp v")
  case False
  then show ?thesis by (simp add: move_absent)
next
  case True
  then obtain first where
    f: "List.find (matches (newPose direction stp v)) (positionTable v) = Some first"
    by (auto simp: commits_iff_find)
  obtain h w r where p: "newPose direction stp v = (h, w, r)"
    by (cases "newPose direction stp v")
  show ?thesis using move_present [OF f p] by (simp add: positionTable_def)
qed

subsection \<open>Refreshes and reachable states\<close>

lemma refresh_frame [simp]:
  "pose (refresh getValueB getValueN options v) = pose v"
  "lastRotation (refresh getValueB getValueN options v) = lastRotation v"
  "selectionManager (refresh getValueB getValueN options v) = selectionManager v"
  by (simp_all add: refresh_def update_def after_def pose_def split: sum.splits)

lemma reachable_refresh:
  "reachable getValueB getValueN v
     \<Longrightarrow> reachable getValueB getValueN (refresh getValueB getValueN options v)"
  using reachable_exec [of getValueB getValueN v "Refresh options"] by simp

lemma reachable_move:
  "reachable getValueB getValueN v \<Longrightarrow> stp = 1 \<or> stp = - 1
     \<Longrightarrow> reachable getValueB getValueN (move direction stp v)"
  using reachable_exec [of getValueB getValueN v "Move direction stp"] by simp

text \<open>Every click of a button is a move in the above sense.\<close>

lemma reachable_click:
  "reachable getValueB getValueN v \<Longrightarrow> reachable getValueB getValueN (after v (click b v))"
  using reachable_move [of getValueB getValueN v "buttonStep b" "buttonDirection b"]
  by (cases b) (simp_all add: click_def move_def)

lemma reachable_loaded: "reachable exampleGetValueB exampleGetValueN (loaded objs rows)"
  unfolding loaded_def exampleRefresh_def by (intro reachable_refresh reachable_init)

lemma rotation_ok_cases:
  "rotation_ok r \<longleftrightarrow> r \<in> {0, 45, 90, 135, 180, 225, 270, 315}"
proof
  assume "rotation_ok r"
  then obtain k where k: "r = 45 * k" and b: "0 \<le> r" "r < 360"
    by (auto simp: rotation_ok_def elim: dvdE)
  from k b have "k = 0 \<or> k = 1 \<or> k = 2 \<or> k = 3 \<or> k = 4 \<or> k = 5 \<or> k = 6 \<or> k = 7"
    by arith
  with k show "r \<in> {0, 45, 90, 135, 180, 225, 270, 315}" by auto
next
  assume "r \<in> {0, 45, 90, 135, 180, 225, 270, 315}"
  then show "rotation_ok r" by (auto simp: rotation_ok_def)
qed

lemma rotation_ok_rotate:
  assumes "stp = 1 \<or> stp = - 1" and "rotation_ok r"
  shows "rotation_ok (if r + 45 * stp < 0 then r + 45 * stp + 360 else (r + 45 * stp) mod 360)"
proof -
  from assms(2) have "r \<in> {0, 45, 90, 135, 180, 225, 270, 315}"
    by (simp only: rotation_ok_cases)
  with assms(1) show ?thesis
    by (auto simp: rotation_ok_def)
qed

lemma rotation_ok_newPose:
  assumes "stp = 1 \<or> stp = - 1" and "rotation_ok (lastRotation v)"
  shows "rotation_ok (snd (snd (newPose direction stp v)))"
proof -
  consider "direction = ''d''" | "direction = ''r''" | "direction \<noteq> ''d''" "direction \<noteq> ''r''"
    by blast
  then show ?thesis
  proof cases
    case 1
    with assms(2) show ?thesis by (simp add: newPose_translate)
  next
    case 2
    with rotation_ok_rotate [OF assms] show ?thesis by (simp add: newPose_rotate)
  next
    case 3
    with assms(2) show ?thesis by (simp add: newPose_other pose_def)
  qed
qed

lemma rotation_ok_move:
  assumes "stp = 1 \<or> stp = - 1" and "rotation_ok (lastRotation v)"
  shows "rotation_ok (lastRotation (move direction stp v))"
proof -
  have "lastRotation (move direction stp v) = snd (snd (pose (move direction stp v)))"
    by (simp add: pose_def)
  also have "\<dots> = (if commits direction stp v then snd (snd (newPose direction stp v))
                    else lastRotation v)"
    unfolding pose_move_cases by (simp add: pose_def)
  finally show ?thesis
    using assms rotation_ok_newPose [OF assms, of direction] by simp
qed

lemma reachable_rotation_ok:
  "reachable getValueB getValueN v \<Longrightarrow> rotation_ok (lastRotation v)"
proof (induction rule: reachable.induct)
  case reachable_init
  show ?case by (simp add: Visual_constructor_def rotation_ok_def)
next
  case (reachable_exec v e)
  then show ?case
    by (cases e) (simp_all add: rotation_ok_move)
qed

subsection \<open>Evaluating the examples\<close>

lemmas example_defs =
  loaded_def exampleRefresh_def refresh_def update_def visualTransform_def exampleView_def
  exampleViewNoRotation_def exampleColumn_def Visual_constructor_def categoryAt_def
  valueString_def toString_int_def digit_char_def after_def exampleGetValueB_def
  exampleGetValueN_def axisDataPoints_def positionTable_def

subsection \<open>The key of a pose determines the pose\<close>

lemma digit_char_inj:
  assumes "d < 10" and "e < 10" and "digit_char d = digit_char e"
  shows "d = e"
proof -
  have "distinct ''0123456789''" by simp
  moreover have "d < length ''0123456789''" "e < length ''0123456789''"
    using assms(1,2) by simp_all
  ultimately show ?thesis
    using assms(3) unfolding digit_char_def by (simp only: nth_eq_iff_index_eq)
qed

lemma digit_char_in: "d < 10 \<Longrightarrow> digit_char d \<in> set ''0123456789''"
  unfolding digit_char_def by (rule nth_mem) simp

lemma digits_chars: "set (digits n) \<subseteq> set ''0123456789''"
proof (induction n rule: digits.induct)
  case (1 n)
  show ?case
  proof (cases "n < 10")
    case True
    then show ?thesis using digit_char_in [of n] by simp
  next
    case False
    have "n mod 10 < 10" by simp
    then have "digit_char (n mod 10) \<in> set ''0123456789''" by (rule digit_char_in)
    with False "1.IH" show ?thesis by simp
  qed
qed

lemma digits_nonempty: "digits n \<noteq> []"
  by (cases "n < 10") simp_all

lemma digits_length_one: "length (digits n) = 1 \<longleftrightarrow> n < 10"
  using digits_nonempty [of "n div 10"] by (cases "n < 10") simp_all

lemma digits_inj: "digits n = digits m \<Longrightarrow> n = m"
proof (induction n arbitrary: m rule: digits.induct)
  case (1 n)
  from "1.prems" have len: "length (digits n) = length (digits m)" by (rule arg_cong)
  show ?case
  proof (cases "n < 10")
    case True
    then have "length (digits n) = 1" using digits_length_one [of n] by blast
    with len have "length (digits m) = 1" by linarith
    then have m: "m < 10" using digits_length_one [of m] by blast
    have "digits n = [digit_char n]" using True by (rule digits_small)
    moreover have "digits m = [digit_char m]" using m by (rule digits_small)
    ultimately have "[digit_char n] = [digit_char m]" using "1.prems" by (simp only:)
    then have "digit_char n = digit_char m" by (simp only: list.inject)
    with True m show ?thesis by (rule digit_char_inj)
  next
    case False
    then have "length (digits n) \<noteq> 1" using digits_length_one [of n] by blast
    with len have "length (digits m) \<noteq> 1" by linarith
    then have m: "\<not> m < 10" using digits_length_one [of m] by blast
    have "digits n = digits (n div 10) @ [digit_char (n mod 10)]"
      using False by (rule digits_large)
    moreover have "digits m = digits (m div 10) @ [digit_char (m mod 10)]"
      using m by (rule digits_large)
    ultimately have "digits (n div 10) @ [digit_char (n mod 10)]
                       = digits (m div 10) @ [digit_char (m mod 10)]"
      using "1.prems" by (simp only:)
    then have a: "digits (n div 10) = digits (m div 10)"
      and b: "digit_char (n mod 10) = digit_char (m mod 10)"
      by (simp_all only: append1_eq_conv)
    from a have q: "n div 10 = m div 10" by (rule "1.IH" [OF False])
    have "n mod 10 < 10" "m mod 10 < 10" by simp_all
    then have r: "n mod 10 = m mod 10" using b by (rule digit_char_inj)
    have "n = n div 10 * 10 + n mod 10" by simp
    also have "\<dots> = m div 10 * 10 + m mod 10" by (simp only: q r)
    also have "\<dots> = m" by simp
    finally show ?thesis .
  qed
qed

lemma notin_subset: "c \<notin> B \<Longrightarrow> A \<subseteq> B \<Longrightarrow> c \<notin> A"
  by blast

lemma toString_int_chars: "set (toString_int i) \<subseteq> set ''-0123456789''"
proof -
  have sub: "set ''0123456789'' \<subseteq> set ''-0123456789''"
    by (simp only: list.set) (rule subset_insertI)
  have d: "set (digits n) \<subseteq> set ''-0123456789''" for n
    using digits_chars [of n] sub by (rule subset_trans)
  have m: "CHR ''-'' \<in> set ''-0123456789''" by simp
  show ?thesis
  proof (cases "i < 0")
    case True
    then have "toString_int i = CHR ''-'' # digits (nat (- i))"
      by (simp only: toString_int_def if_True)
    then show ?thesis using d [of "nat (- i)"] m by (simp only: list.set insert_subset)
  next
    case False
    then have "toString_int i = digits (nat i)"
      by (simp only: toString_int_def if_False)
    then show ?thesis using d [of "nat i"] by (simp only:)
  qed
qed

lemma toString_int_inj: "toString_int i = toString_int j \<Longrightarrow> i = j"
proof -
  assume eq: "toString_int i = toString_int j"
  have nd: "hd (digits n) \<noteq> CHR ''-''" for n
  proof -
    have "CHR ''-'' \<notin> set ''0123456789''" by simp
    then have "CHR ''-'' \<notin> set (digits n)"
      using digits_chars [of n] by (rule notin_subset)
    moreover have "hd (digits n) \<in> set (digits n)"
      using digits_nonempty [of n] by (rule hd_in_set)
    ultimately show ?thesis by metis
  qed
  have first: "digits n \<noteq> CHR ''-'' # s" "CHR ''-'' # s \<noteq> digits n" for n s
    using nd [of n] by (cases "digits n"; auto)+
  show ?thesis
  proof (cases "i < 0")
    case True
    with eq first have j: "j < 0"
      by (auto simp: toString_int_def split: if_splits)
    with True eq have "digits (nat (- i)) = digits (nat (- j))"
      by (simp add: toString_int_def)
    then have "nat (- i) = nat (- j)" by (rule digits_inj)
    with True j show ?thesis by simp
  next
    case False
    with eq first have j: "\<not> j < 0"
      by (auto simp: toString_int_def split: if_splits)
    with False eq have "digits (nat i) = digits (nat j)"
      by (simp add: toString_int_def)
    then have "nat i = nat j" by (rule digits_inj)
    with False j show ?thesis by simp
  qed
qed

text \<open>The lookup by key is a lookup by integer equality on the three components.\<close>

lemma positionMetadata_inj:
  "positionMetadata p = positionMetadata q \<longleftrightarrow> p = q"
proof
  assume eq: "positionMetadata p = positionMetadata q"
  obtain h w r where p: "p = (h, w, r)" by (cases p)
  obtain h' w' r' where q: "q = (h', w', r')" by (cases q)
  have "CHR ''Y'' \<notin> set ''-0123456789''" by simp
  then have noY: "CHR ''Y'' \<notin> set (toString_int i)" for i
    using toString_int_chars [of i] by (rule notin_subset)
  have "CHR ''V'' \<notin> set ''-0123456789''" by simp
  then have noV: "CHR ''V'' \<notin> set (toString_int i)" for i
    using toString_int_chars [of i] by (rule notin_subset)
  from eq p q have
    "toString_int h @ CHR ''Y'' # (toString_int w @ CHR ''V'' # toString_int r)
       = toString_int h' @ CHR ''Y'' # (toString_int w' @ CHR ''V'' # toString_int r')"
    by (simp add: positionMetadata_def)
  then have a: "toString_int h = toString_int h'"
    and b: "toString_int w @ CHR ''V'' # toString_int r = toString_int w' @ CHR ''V'' # toString_int r'"
    using noY by (simp_all add: append_Cons_eq_iff)
  from b have "toString_int w = toString_int w'" "toString_int r = toString_int r'"
    using noV by (simp_all add: append_Cons_eq_iff)
  with a p q show "p = q" by (simp add: toString_int_inj)
next
  assume "p = q"
  then show "positionMetadata p = positionMetadata q" by simp
qed

subsection \<open>The table of an integer data source\<close>

lemma valueString_row:
  assumes "i < length xs"
  shows "valueString (Some \<lparr>source = c, values' = map PNumber xs\<rparr>) i = Inr (toString_int (xs ! i))"
  using assms by (simp add: valueString_def)

lemma transformValues_rows:
  assumes "suf = drop k hs" and "length ws = length hs" and "length rs = length hs"
  shows "transformValues k (map PNumber suf)
           (Some \<lparr>source = ch, values' = map PNumber hs\<rparr>)
           (Some \<lparr>source = cw, values' = map PNumber ws\<rparr>)
           (Some \<lparr>source = cr, values' = map PNumber rs\<rparr>)
         = Inr (map (\<lambda>i. \<lparr>category = toString_int (hs ! i),
                             selectionId = \<lparr>withCategory = (displayName ch, i),
                                            metadata = Some (positionMetadata (hs ! i, ws ! i, rs ! i))\<rparr>\<rparr>)
                  [k ..< length hs])"
  using assms
proof (induction suf arbitrary: k)
  case Nil
  then show ?case by simp
next
  case (Cons x suf)
  have k: "k < length hs"
  proof (rule ccontr)
    assume "\<not> k < length hs"
    then have "drop k hs = []" by simp
    with Cons.prems(1) show False by simp
  qed
  with Cons.prems(2,3) have kw: "k < length ws" and kr: "k < length rs" by simp_all
  have d: "drop k hs = hs ! k # drop (Suc k) hs"
    using k by (rule Cons_nth_drop_Suc [symmetric])
  with Cons.prems(1) have x: "x = hs ! k" and s: "suf = drop (Suc k) hs" by simp_all
  have rest: "transformValues (Suc k) (map PNumber suf)
           (Some \<lparr>source = ch, values' = map PNumber hs\<rparr>)
           (Some \<lparr>source = cw, values' = map PNumber ws\<rparr>)
           (Some \<lparr>source = cr, values' = map PNumber rs\<rparr>)
         = Inr (map (\<lambda>i. \<lparr>category = toString_int (hs ! i),
                             selectionId = \<lparr>withCategory = (displayName ch, i),
                                            metadata = Some (positionMetadata (hs ! i, ws ! i, rs ! i))\<rparr>\<rparr>)
                  [Suc k ..< length hs])"
    using s Cons.prems(2,3) by (rule Cons.IH)
  have up: "[k ..< length hs] = k # [Suc k ..< length hs]"
    using k by (rule upt_conv_Cons)
  show ?case
    unfolding up
    by (simp add: rest valueString_row k kw kr x positionMetadata_def)
qed

text \<open>
  After a refresh with the example data the table holds, in row order, one record per
  row, and its metadata is the key of the row's three integers.
\<close>

lemma positionTable_loaded:
  "positionTable (exampleRefresh objs rows v) =
     map (\<lambda>i. \<lparr>category = toString_int (fst (rows ! i)),
                 selectionId = \<lparr>withCategory = (''X'', i),
                                metadata = Some (positionMetadata (rows ! i))\<rparr>\<rparr>)
       [0 ..< length rows]"
proof -
  let ?hs = "map (\<lambda>(h, w, r). h) rows" and ?ws = "map (\<lambda>(h, w, r). w) rows"
  and ?rs = "map (\<lambda>(h, w, r). r) rows"
  have m: "map (\<lambda>(h, w, r). PNumber h) rows = map PNumber ?hs"
          "map (\<lambda>(h, w, r). PNumber w) rows = map PNumber ?ws"
          "map (\<lambda>(h, w, r). PNumber r) rows = map PNumber ?rs"
    by (simp_all add: case_prod_beta)
  have t: "transformValues 0 (map PNumber ?hs)
           (Some \<lparr>source = exampleColumn ''horizontalCategory'' ''X'', values' = map PNumber ?hs\<rparr>)
           (Some \<lparr>source = exampleColumn ''verticalCategory'' ''Y'', values' = map PNumber ?ws\<rparr>)
           (Some \<lparr>source = exampleColumn ''rotationCategory'' ''V'', values' = map PNumber ?rs\<rparr>)
         = Inr (map (\<lambda>i. \<lparr>category = toString_int (?hs ! i),
                             selectionId =
                               \<lparr>withCategory =
                                  (displayName (exampleColumn ''horizontalCategory'' ''X''), i),
                                metadata = Some (positionMetadata (?hs ! i, ?ws ! i, ?rs ! i))\<rparr>\<rparr>)
                  [0 ..< length ?hs])"
    by (rule transformValues_rows) simp_all
  have e: "map (\<lambda>i. \<lparr>category = toString_int (?hs ! i),
                             selectionId =
                               \<lparr>withCategory =
                                  (displayName (exampleColumn ''horizontalCategory'' ''X''), i),
                                metadata = Some (positionMetadata (?hs ! i, ?ws ! i, ?rs ! i))\<rparr>\<rparr>)
                  [0 ..< length ?hs]
         = map (\<lambda>i. \<lparr>category = toString_int (fst (rows ! i)),
                 selectionId = \<lparr>withCategory = (''X'', i),
                                metadata = Some (positionMetadata (rows ! i))\<rparr>\<rparr>)
       [0 ..< length rows]"
    by (rule map_cong [OF _ _]) (auto simp: exampleColumn_def case_prod_beta)
  have c: "roles (exampleColumn role name) = [role]"
          "displayName (exampleColumn role name) = name" for role name
    by (simp_all add: exampleColumn_def)
  show ?thesis
    unfolding exampleRefresh_def refresh_def update_def visualTransform_def exampleView_def m
    by (simp add: t e c categoryAt_def positionTable_def after_def Let_def case_prod_beta
          del: map_map)
qed

text \<open>
  So on an integer data source the lookup is by integer equality: a move commits exactly
  when its target pose is one of the rows.
\<close>

lemma commits_integer_equality:
  "commits direction stp (exampleRefresh objs rows v)
     \<longleftrightarrow> newPose direction stp (exampleRefresh objs rows v) \<in> set rows"
proof -
  let ?p = "newPose direction stp (exampleRefresh objs rows v)"
  have "commits direction stp (exampleRefresh objs rows v)
          \<longleftrightarrow> (\<exists>i<length rows. positionMetadata (rows ! i) = positionMetadata ?p)"
    unfolding commits_def positionTable_loaded
    by (auto simp: list_ex_iff matches_def)
  also have "\<dots> \<longleftrightarrow> (\<exists>i<length rows. rows ! i = ?p)"
    by (simp only: positionMetadata_inj)
  also have "\<dots> \<longleftrightarrow> ?p \<in> set rows"
    by (auto simp: in_set_conv_nth)
  finally show ?thesis .
qed

section \<open>The claims\<close>

lemma unit_vector_table:
  assumes "rotation_ok r"
  shows "(dh r, dv r)
           \<in> {(0, 1), (1, 1), (1, 0), (1, - 1), (0, - 1), (- 1, - 1), (- 1, 0), (- 1, 1)}"
proof -
  from assms have "r \<in> {0, 45, 90, 135, 180, 225, 270, 315}"
    by (simp only: rotation_ok_cases)
  then show ?thesis
    by (elim insertE emptyE) (simp_all only: dh_table dv_table insert_iff simp_thms)
qed

text \<open>
  C1. For every current pose \<open>(h, v, r)\<close> of the data model (\<open>r\<close> a multiple of 45 in
  \<open>[0, 360)\<close>) and every step, in particular \<open>1\<close> and \<open>-1\<close>, a translate move (direction
  \<open>d\<close>) targets the pose
  \<open>(h + round (sin (r\<cdot>\<pi>/180))\<cdot>step, v + round (cos (r\<cdot>\<pi>/180))\<cdot>step, r)\<close>, whose displacement
  is one of the eight unit vectors of the grid. The rotation held by the control after
  the move is the one before it, whether the move commits or not. At \<open>r = 90\<close> the unit
  vector is \<open>(1, 0)\<close>: the horizontal index changes by the step and the vertical index by
  nothing.
\<close>

theorem C1_translate_target:
  assumes "rotation_ok (lastRotation v)"
  shows "newPose ''d'' stp v =
           (lastHorizontal v + dh (lastRotation v) * stp,
            lastVertical v + dv (lastRotation v) * stp, lastRotation v)
         \<and> lastRotation (move ''d'' stp v) = lastRotation v
         \<and> (dh (lastRotation v), dv (lastRotation v))
             \<in> {(0, 1), (1, 1), (1, 0), (1, - 1), (0, - 1), (- 1, - 1), (- 1, 0), (- 1, 1)}
         \<and> dh 90 = 1 \<and> dv 90 = 0"
proof -
  have "lastRotation (move ''d'' stp v) = snd (snd (pose (move ''d'' stp v)))"
    by (simp add: pose_def)
  also have "\<dots> = lastRotation v"
    unfolding pose_move_cases by (simp add: newPose_translate pose_def)
  finally have frame: "lastRotation (move ''d'' stp v) = lastRotation v" .
  show ?thesis
    using frame unit_vector_table [OF assms] newPose_translate [of stp v] dh_table(3) dv_table(3)
    by (intro conjI)
qed

theorem C1_translate_target_witness:
  "rotation_ok 90
   \<and> newPose ''d'' 1 (Visual_constructor\<lparr>lastRotation := 90\<rparr>) = (2, 1, 90)
   \<and> newPose ''d'' (- 1) (Visual_constructor\<lparr>lastRotation := 90\<rparr>) = (0, 1, 90)
   \<and> lastRotation (move ''d'' 1 (Visual_constructor\<lparr>lastRotation := 90\<rparr>)) = 90"
proof -
  let ?v = "Visual_constructor\<lparr>lastRotation := 90\<rparr>"
  have f: "lastHorizontal ?v = 1" "lastVertical ?v = 1" "lastRotation ?v = 90"
    by (simp_all add: Visual_constructor_def)
  have ok90: "rotation_ok 90" by (simp add: rotation_ok_def)
  then have ok: "rotation_ok (lastRotation ?v)" by (simp only: f)
  from C1_translate_target [OF ok, of 1]
  have a: "newPose ''d'' 1 ?v = (2, 1, 90)" and c: "lastRotation (move ''d'' 1 ?v) = 90"
    by (simp_all only: f dh_table dv_table) simp_all
  from C1_translate_target [OF ok, of "- 1"]
  have b: "newPose ''d'' (- 1) ?v = (0, 1, 90)"
    by (simp only: f dh_table dv_table) simp
  show ?thesis using ok90 a b c by (intro conjI)
qed

text \<open>
  C2. A rotate move (direction \<open>r\<close>) with step \<open>1\<close> or \<open>-1\<close> targets the rotation
  \<open>(r + 45\<cdot>step) mod 360\<close>, which lies in \<open>[0, 360)\<close>, with the indices unchanged. This holds
  for every current rotation of the data model (\<open>0 \<le> r < 360\<close>), and more generally from
  \<open>-315\<close> upwards. From 0 a step of \<open>1\<close> targets 45; from 315 it wraps to 0.
\<close>

theorem C2_rotate_target:
  assumes "stp = 1 \<or> stp = - 1" and "- 315 \<le> lastRotation v"
  shows "newPose ''r'' stp v =
           (lastHorizontal v, lastVertical v, (lastRotation v + 45 * stp) mod 360)
         \<and> 0 \<le> (lastRotation v + 45 * stp) mod 360
         \<and> (lastRotation v + 45 * stp) mod 360 < 360"
proof -
  let ?r = "lastRotation v + 45 * stp"
  have low: "- 360 \<le> ?r" using assms by auto
  have "?r < 0 \<Longrightarrow> ?r + 360 = ?r mod 360"
  proof -
    assume neg: "?r < 0"
    have "(?r + 360) mod 360 = ?r + 360"
      using low neg by (intro mod_pos_pos_trivial) auto
    then show ?thesis by simp
  qed
  then show ?thesis by (simp add: newPose_rotate)
qed

theorem C2_rotate_target_witness:
  "newPose ''r'' 1 Visual_constructor = (1, 1, 45)
   \<and> newPose ''r'' 1 (Visual_constructor\<lparr>lastRotation := 315\<rparr>) = (1, 1, 0)
   \<and> newPose ''r'' (- 1) Visual_constructor = (1, 1, 315)"
  using C2_rotate_target [of 1 Visual_constructor]
        C2_rotate_target [of 1 "Visual_constructor\<lparr>lastRotation := 315\<rparr>"]
        C2_rotate_target [of "- 1" Visual_constructor]
  by (simp add: Visual_constructor_def)

text \<open>
  C3. When the target pose of a move matches no record of the position table (in
  particular when there is no table yet), the control is exactly as before: the pose is
  unchanged and the selection service has received nothing new.
\<close>

theorem C3_absent_target_is_noop:
  assumes "\<not> commits direction stp v"
  shows "pose (move direction stp v) = pose v
         \<and> selectionManager (move direction stp v) = selectionManager v
         \<and> move direction stp v = v"
  using assms by (simp add: move_absent)

theorem C3_absent_target_is_noop_witness:
  "\<not> commits ''d'' 1 (loaded None [(1, 1, 0)])
   \<and> newPose ''d'' 1 (loaded None [(1, 1, 0)]) = (1, 2, 0)
   \<and> pose (loaded None [(1, 1, 0)]) = (1, 1, 0)
   \<and> pose (move ''d'' 1 (loaded None [(1, 1, 0)])) = (1, 1, 0)
   \<and> selectionManager (move ''d'' 1 (loaded None [(1, 1, 0)])) = []"
proof -
  have t: "newPose ''d'' 1 (loaded None [(1, 1, 0)]) = (1, 2, 0)"
    by (simp add: newPose_translate dh_table dv_table example_defs)
  have n: "\<not> commits ''d'' 1 (loaded None [(1, 1, 0)])"
    unfolding commits_def t
    by (simp add: example_defs matches_def positionMetadata_def)
  have p: "pose (loaded None [(1, 1, 0)]) = (1, 1, 0)"
    and s: "selectionManager (loaded None [(1, 1, 0)]) = []"
    by (simp_all add: example_defs pose_def)
  show ?thesis
    using C3_absent_target_is_noop [OF n] t n p s by simp
qed

text \<open>
  C4. When the target pose of a move matches a record of the position table, the call
  returns normally, the target pose becomes the pose of the control, and the selection
  service receives exactly one more id: that of the first record of the table that
  matches the target pose.
\<close>

theorem C4_present_target_commits:
  assumes "commits direction stp v"
  shows "\<exists>first. List.find (matches (newPose direction stp v)) (positionTable v) = Some first
           \<and> first \<in> set (positionTable v)
           \<and> matches (newPose direction stp v) first
           \<and> step direction stp v = Inr (move direction stp v)
           \<and> pose (move direction stp v) = newPose direction stp v
           \<and> selectionManager (move direction stp v) = selectionManager v @ [selectionId first]"
proof -
  from assms obtain first where
    f: "List.find (matches (newPose direction stp v)) (positionTable v) = Some first"
    by (auto simp: commits_iff_find)
  obtain h w r where p: "newPose direction stp v = (h, w, r)"
    by (cases "newPose direction stp v")
  have "step direction stp v = Inr (move direction stp v)"
    using step_present [OF f p] by (simp add: move_def after_def)
  moreover have "pose (move direction stp v) = newPose direction stp v"
    using assms by (simp add: pose_move_cases)
  moreover have "selectionManager (move direction stp v) = selectionManager v @ [selectionId first]"
    using move_present [OF f p] by simp
  ultimately show ?thesis
    using f find_Some_member [OF f] by blast
qed

theorem C4_present_target_commits_witness:
  "commits ''d'' 1 (loaded None [(1, 1, 0), (1, 2, 0)])
   \<and> pose (loaded None [(1, 1, 0), (1, 2, 0)]) = (1, 1, 0)
   \<and> pose (move ''d'' 1 (loaded None [(1, 1, 0), (1, 2, 0)])) = (1, 2, 0)
   \<and> selectionManager (move ''d'' 1 (loaded None [(1, 1, 0), (1, 2, 0)]))
       = [\<lparr>withCategory = (''X'', 1), metadata = Some ''X1Y2V0''\<rparr>]"
proof -
  let ?v = "loaded None [(1, 1, 0), (1, 2, 0)]"
  have t: "newPose ''d'' 1 ?v = (1, 2, 0)"
    by (simp add: newPose_translate dh_table dv_table example_defs)
  have c: "commits ''d'' 1 ?v"
    unfolding commits_def t
    by (simp add: example_defs matches_def positionMetadata_def)
  have p: "pose ?v = (1, 1, 0)" and s: "selectionManager ?v = []"
    by (simp_all add: example_defs pose_def)
  have f: "List.find (matches (1, 2, 0)) (positionTable ?v)
             = Some \<lparr>category = ''1'', selectionId =
                 \<lparr>withCategory = (''X'', 1), metadata = Some ''X1Y2V0''\<rparr>\<rparr>"
    by (simp add: example_defs matches_def positionMetadata_def)
  show ?thesis
    using C4_present_target_commits [OF c] c p s f unfolding t by auto
qed

text \<open>
  C5. In every state reachable from the freshly constructed control (pose \<open>(1, 1, 0)\<close>)
  by refreshes and by moves with step \<open>1\<close> or \<open>-1\<close> in any direction, the rotation is a
  multiple of 45 in \<open>[0, 360)\<close>, that is one of 0, 45, ..., 315.
\<close>

theorem C5_rotation_invariant:
  assumes "reachable getValueB getValueN v"
  shows "0 \<le> lastRotation v \<and> lastRotation v < 360 \<and> 45 dvd lastRotation v
         \<and> lastRotation v \<in> {0, 45, 90, 135, 180, 225, 270, 315}"
  using reachable_rotation_ok [OF assms] rotation_ok_cases [of "lastRotation v"]
  by (simp add: rotation_ok_def)

theorem C5_rotation_invariant_witness:
  "reachable exampleGetValueB exampleGetValueN (move ''r'' 1 (loaded None [(1, 1, 0), (1, 1, 45)]))
   \<and> pose (move ''r'' 1 (loaded None [(1, 1, 0), (1, 1, 45)])) = (1, 1, 45)
   \<and> (45::int) dvd 45"
proof -
  let ?v = "loaded None [(1, 1, 0), (1, 1, 45)]"
  have r: "reachable exampleGetValueB exampleGetValueN (move ''r'' 1 ?v)"
    by (intro reachable_move reachable_loaded) simp
  have t: "newPose ''r'' 1 ?v = (1, 1, 45)"
    by (simp add: newPose_rotate example_defs)
  have c: "commits ''r'' 1 ?v"
    unfolding commits_def t
    by (simp add: example_defs matches_def positionMetadata_def)
  have "pose (move ''r'' 1 ?v) = (1, 1, 45)"
    using c t by (simp add: pose_move_cases)
  then show ?thesis
    using C5_rotation_invariant [OF r] r by simp
qed

subsection \<open>Rotating there and back\<close>

lemma newPose_rotate_back:
  assumes "rotation_ok (lastRotation v)" and "commits ''r'' 1 v"
  shows "newPose ''r'' (- 1) (move ''r'' 1 v) = pose v"
proof -
  have p: "pose (move ''r'' 1 v) = newPose ''r'' 1 v"
    using assms(2) by (simp add: pose_move_cases)
  then have m:
    "lastHorizontal (move ''r'' 1 v) = lastHorizontal v"
    "lastVertical (move ''r'' 1 v) = lastVertical v"
    "lastRotation (move ''r'' 1 v) =
       (if lastRotation v + 45 * 1 < 0 then lastRotation v + 45 * 1 + 360
        else (lastRotation v + 45 * 1) mod 360)"
    by (simp_all add: pose_def newPose_rotate)
  from assms(1) have "lastRotation v \<in> {0, 45, 90, 135, 180, 225, 270, 315}"
    by (simp only: rotation_ok_cases)
  then show ?thesis
    unfolding newPose_rotate pose_def m by auto
qed

lemma newPose_rotate_mod:
  assumes "stp = 1 \<or> stp = - 1" and "rotation_ok (lastRotation v)"
  shows "newPose ''r'' stp v =
           (lastHorizontal v, lastVertical v, (lastRotation v + 45 * stp) mod 360)"
proof -
  from assms(2) have "lastRotation v \<in> {0, 45, 90, 135, 180, 225, 270, 315}"
    by (simp only: rotation_ok_cases)
  with assms(1) show ?thesis
    unfolding newPose_rotate by auto
qed

lemma rotation_moves_away:
  assumes "rotation_ok r"
  shows "(r + 45) mod 360 \<noteq> r" and "(r - 45) mod 360 \<noteq> r"
proof -
  from assms have "r \<in> {0, 45, 90, 135, 180, 225, 270, 315}"
    by (simp only: rotation_ok_cases)
  then show "(r + 45) mod 360 \<noteq> r" and "(r - 45) mod 360 \<noteq> r" by auto
qed

text \<open>
  C6 (amended). For every reachable pose \<open>(h, v, r)\<close>, if the move \<open>(rotate, +1)\<close> and the
  following move \<open>(rotate, -1)\<close> both commit or both do not, the pose, and so the
  rotation, is back at its original value. When only the first commits the pose ends at
  \<open>(h, v, (r + 45) mod 360)\<close>, and when only the second commits at
  \<open>(h, v, (r - 45) mod 360)\<close>: in both cases the rotation ends 45 degrees away from \<open>r\<close>.
\<close>

theorem C6_rotate_there_and_back:
  assumes "reachable getValueB getValueN v"
  shows "pose (move ''r'' (- 1) (move ''r'' 1 v)) =
           (if commits ''r'' 1 v = commits ''r'' (- 1) (move ''r'' 1 v) then pose v
            else if commits ''r'' 1 v
            then (lastHorizontal v, lastVertical v, (lastRotation v + 45) mod 360)
            else (lastHorizontal v, lastVertical v, (lastRotation v - 45) mod 360))
         \<and> (lastRotation v + 45) mod 360 \<noteq> lastRotation v
         \<and> (lastRotation v - 45) mod 360 \<noteq> lastRotation v"
proof -
  have ok: "rotation_ok (lastRotation v)"
    using assms by (rule reachable_rotation_ok)
  have up: "newPose ''r'' 1 v = (lastHorizontal v, lastVertical v, (lastRotation v + 45) mod 360)"
    using newPose_rotate_mod [of 1 v] ok by simp
  have down: "newPose ''r'' (- 1) v
                = (lastHorizontal v, lastVertical v, (lastRotation v - 45) mod 360)"
    using newPose_rotate_mod [of "- 1" v] ok by simp
  have "pose (move ''r'' (- 1) (move ''r'' 1 v)) =
           (if commits ''r'' 1 v = commits ''r'' (- 1) (move ''r'' 1 v) then pose v
            else if commits ''r'' 1 v
            then (lastHorizontal v, lastVertical v, (lastRotation v + 45) mod 360)
            else (lastHorizontal v, lastVertical v, (lastRotation v - 45) mod 360))"
  proof (cases "commits ''r'' 1 v")
    case True
    have p1: "pose (move ''r'' 1 v) = newPose ''r'' 1 v"
      using True by (simp add: pose_move_cases)
    show ?thesis
    proof (cases "commits ''r'' (- 1) (move ''r'' 1 v)")
      case c2: True
      then show ?thesis
        using True newPose_rotate_back [OF ok True] by (simp add: pose_move_cases)
    next
      case c2: False
      then have "move ''r'' (- 1) (move ''r'' 1 v) = move ''r'' 1 v" by (rule move_absent)
      then show ?thesis using True c2 p1 up by simp
    qed
  next
    case False
    then have m: "move ''r'' 1 v = v" by (rule move_absent)
    show ?thesis
    proof (cases "commits ''r'' (- 1) v")
      case c2: True
      then show ?thesis using False m down by (simp add: pose_move_cases)
    next
      case c2: False
      then show ?thesis using False m by (simp add: move_absent)
    qed
  qed
  then show ?thesis using rotation_moves_away [OF ok] by simp
qed

theorem C6_rotate_there_and_back_witness:
  "reachable exampleGetValueB exampleGetValueN (loaded None [(1, 1, 0), (1, 1, 45)])
   \<and> commits ''r'' 1 (loaded None [(1, 1, 0), (1, 1, 45)])
   \<and> commits ''r'' (- 1) (move ''r'' 1 (loaded None [(1, 1, 0), (1, 1, 45)]))
   \<and> pose (move ''r'' 1 (loaded None [(1, 1, 0), (1, 1, 45)])) = (1, 1, 45)
   \<and> pose (move ''r'' (- 1) (move ''r'' 1 (loaded None [(1, 1, 0), (1, 1, 45)]))) = (1, 1, 0)"
proof -
  let ?v = "loaded None [(1, 1, 0), (1, 1, 45)]"
  have r: "reachable exampleGetValueB exampleGetValueN ?v"
    by (rule reachable_loaded)
  have p: "pose ?v = (1, 1, 0)"
    by (simp add: example_defs pose_def)
  have t: "newPose ''r'' 1 ?v = (1, 1, 45)"
    by (simp add: newPose_rotate example_defs)
  have c1: "commits ''r'' 1 ?v"
    unfolding commits_def t
    by (simp add: example_defs matches_def positionMetadata_def)
  have p1: "pose (move ''r'' 1 ?v) = (1, 1, 45)"
    using c1 t by (simp add: pose_move_cases)
  have "rotation_ok (lastRotation ?v)"
    using r by (rule reachable_rotation_ok)
  then have t2: "newPose ''r'' (- 1) (move ''r'' 1 ?v) = (1, 1, 0)"
    using newPose_rotate_back [OF _ c1] p by simp
  have c2: "commits ''r'' (- 1) (move ''r'' 1 ?v)"
    unfolding commits_def t2 positionTable_move
    by (simp add: example_defs matches_def positionMetadata_def)
  show ?thesis
    using C6_rotate_there_and_back [OF r] r c1 c2 p p1 by simp
qed

text \<open>
  C6 as stated fails: with the table \<open>{(1, 1, 45)}\<close> the default pose \<open>(1, 1, 0)\<close> is
  reachable, the move \<open>(rotate, +1)\<close> commits and the move \<open>(rotate, -1)\<close> does not, since
  its target \<open>(1, 1, 0)\<close> is not in the table. The rotation ends at 45, not at 0.
\<close>

theorem C6_counterexample:
  "reachable exampleGetValueB exampleGetValueN (loaded None [(1, 1, 45)])
   \<and> lastRotation (loaded None [(1, 1, 45)]) = 0
   \<and> lastRotation (move ''r'' (- 1) (move ''r'' 1 (loaded None [(1, 1, 45)]))) = 45
   \<and> lastRotation (move ''r'' (- 1) (move ''r'' 1 (loaded None [(1, 1, 45)]))) mod 360
       \<noteq> lastRotation (loaded None [(1, 1, 45)]) mod 360"
proof -
  let ?v = "loaded None [(1, 1, 45)]"
  have r: "reachable exampleGetValueB exampleGetValueN ?v"
    by (rule reachable_loaded)
  have p: "pose ?v = (1, 1, 0)"
    by (simp add: example_defs pose_def)
  have t: "newPose ''r'' 1 ?v = (1, 1, 45)"
    by (simp add: newPose_rotate example_defs)
  have c1: "commits ''r'' 1 ?v"
    unfolding commits_def t
    by (simp add: example_defs matches_def positionMetadata_def)
  have p1: "pose (move ''r'' 1 ?v) = (1, 1, 45)"
    using c1 t by (simp add: pose_move_cases)
  have "rotation_ok (lastRotation ?v)"
    using r by (rule reachable_rotation_ok)
  then have t2: "newPose ''r'' (- 1) (move ''r'' 1 ?v) = (1, 1, 0)"
    using newPose_rotate_back [OF _ c1] p by simp
  have c2: "\<not> commits ''r'' (- 1) (move ''r'' 1 ?v)"
    unfolding commits_def t2 positionTable_move
    by (simp add: example_defs matches_def positionMetadata_def)
  have "pose (move ''r'' (- 1) (move ''r'' 1 ?v)) = (1, 1, 45)"
    using c2 p1 by (simp add: pose_move_cases)
  then show ?thesis
    using r p by (simp add: pose_def)
qed

subsection \<open>The table of the last commit\<close>

lemma reachable_has_history:
  "reachable getValueB getValueN v \<Longrightarrow> \<exists>T. reachable_since getValueB getValueN v T"
proof (induction rule: reachable.induct)
  case reachable_init
  show ?case by (blast intro: since_init)
next
  case (reachable_exec v e)
  then obtain T where T: "reachable_since getValueB getValueN v T" by blast
  show ?case
  proof (cases e)
    case (Refresh options)
    with since_refresh [OF T] show ?thesis by auto
  next
    case (Move direction stp)
    with reachable_exec.hyps(2) have s: "stp = 1 \<or> stp = - 1" by simp
    show ?thesis
    proof (cases "commits direction stp v")
      case True
      with since_commit [OF T s] Move show ?thesis by auto
    next
      case False
      with since_noop [OF T s] Move show ?thesis by auto
    qed
  qed
qed

lemma selectionManager_move_commit:
  "commits direction stp v \<Longrightarrow> selectionManager (move direction stp v) \<noteq> []"
proof -
  assume "commits direction stp v"
  then obtain first where
    f: "List.find (matches (newPose direction stp v)) (positionTable v) = Some first"
    by (auto simp: commits_iff_find)
  obtain h w r where p: "newPose direction stp v = (h, w, r)"
    by (cases "newPose direction stp v")
  show ?thesis using move_present [OF f p] by simp
qed

lemma since_invariant:
  "reachable_since getValueB getValueN v T \<Longrightarrow>
     (case T of
        None \<Rightarrow> pose v = (1, 1, 0) \<and> selectionManager v = []
      | Some tbl \<Rightarrow> list_ex (matches (pose v)) tbl \<and> selectionManager v \<noteq> [])"
proof (induction rule: reachable_since.induct)
  case since_init
  show ?case by (simp add: Visual_constructor_def pose_def)
next
  case (since_refresh v T options)
  then show ?case by (cases T) simp_all
next
  case (since_commit v T stp direction)
  then show ?case
    by (simp add: pose_move_cases selectionManager_move_commit commits_def)
next
  case (since_noop v T stp direction)
  then show ?case by (cases T) (simp_all add: move_absent)
qed

lemma filter_key_distinct:
  "distinct (map f xs) \<Longrightarrow> length (filter (\<lambda>x. f x = k) xs) \<le> 1"
proof (induction xs)
  case Nil
  show ?case by simp
next
  case (Cons x xs)
  show ?case
  proof (cases "f x = k")
    case True
    from Cons.prems have "f x \<notin> f ` set xs" by simp
    with True have "\<forall>y\<in>set xs. f y \<noteq> k" by blast
    then have "filter (\<lambda>y. f y = k) xs = []"
      by (simp add: filter_empty_conv)
    with True show ?thesis by simp
  next
    case False
    with Cons show ?thesis by simp
  qed
qed

lemma matching_records_count:
  assumes "list_ex (matches p) tbl"
  shows "1 \<le> length (filter (matches p) tbl)"
    and "distinct (map (\<lambda>dp. metadata (selectionId dp)) tbl)
           \<Longrightarrow> length (filter (matches p) tbl) = 1"
proof -
  from assms have "filter (matches p) tbl \<noteq> []"
    by (auto simp: list_ex_iff filter_empty_conv)
  then show low: "1 \<le> length (filter (matches p) tbl)"
    by (cases "filter (matches p) tbl") simp_all
  assume "distinct (map (\<lambda>dp. metadata (selectionId dp)) tbl)"
  then have "length (filter (\<lambda>dp. metadata (selectionId dp) = Some (positionMetadata p)) tbl) \<le> 1"
    by (rule filter_key_distinct)
  moreover have "matches p = (\<lambda>dp. metadata (selectionId dp) = Some (positionMetadata p))"
    by (rule ext) (simp add: matches_def)
  ultimately show "length (filter (matches p) tbl) = 1"
    using low by simp
qed

text \<open>
  C7 (amended). At every point of the control's lifetime either no move has committed
  and the pose is the default \<open>(1, 1, 0)\<close>, or the pose matches at least one record of
  the table that was current when the last move committed, and exactly one when the keys
  of that table are pairwise distinct. Nothing is said about the table of a later refresh.
\<close>

theorem C7_pose_of_last_commit:
  assumes "reachable getValueB getValueN v"
  shows "\<exists>T. reachable_since getValueB getValueN v T \<and>
           (case T of
              None \<Rightarrow> pose v = (1, 1, 0) \<and> selectionManager v = []
            | Some tbl \<Rightarrow>
                1 \<le> length (filter (matches (pose v)) tbl)
                \<and> (if distinct (map (\<lambda>dp. metadata (selectionId dp)) tbl)
                   then length (filter (matches (pose v)) tbl) = 1
                   else True))"
proof -
  from assms obtain T where T: "reachable_since getValueB getValueN v T"
    using reachable_has_history by blast
  show ?thesis
  proof (cases T)
    case None
    with T since_invariant [OF T] show ?thesis by auto
  next
    case (Some tbl)
    with since_invariant [OF T] have "list_ex (matches (pose v)) tbl" by simp
    from matching_records_count [OF this] T Some show ?thesis by auto
  qed
qed

theorem C7_pose_of_last_commit_witness:
  "reachable exampleGetValueB exampleGetValueN
     (exampleRefresh None [(1, 1, 0)] (move ''d'' 1 (loaded None [(1, 1, 0), (1, 2, 0)])))
   \<and> pose (exampleRefresh None [(1, 1, 0)] (move ''d'' 1 (loaded None [(1, 1, 0), (1, 2, 0)])))
       = (1, 2, 0)
   \<and> length (filter (matches (1, 2, 0)) (positionTable (loaded None [(1, 1, 0), (1, 2, 0)]))) = 1"
proof -
  let ?a = "loaded None [(1, 1, 0), (1, 2, 0)]"
  let ?c = "exampleRefresh None [(1, 1, 0)] (move ''d'' 1 ?a)"
  have r: "reachable exampleGetValueB exampleGetValueN ?c"
    unfolding exampleRefresh_def
    by (intro reachable_refresh reachable_move reachable_loaded) simp
  have t: "newPose ''d'' 1 ?a = (1, 2, 0)"
    by (simp add: newPose_translate dh_table dv_table example_defs)
  have c: "commits ''d'' 1 ?a"
    unfolding commits_def t
    by (simp add: example_defs matches_def positionMetadata_def)
  have p: "pose ?c = (1, 2, 0)"
    using c t by (simp add: exampleRefresh_def pose_move_cases)
  have n: "length (filter (matches (1, 2, 0)) (positionTable ?a)) = 1"
    by (simp add: example_defs matches_def positionMetadata_def)
  show ?thesis
    using C7_pose_of_last_commit [OF r] r p n by simp
qed

text \<open>
  C7 as stated fails. After a move to \<open>(1, 2, 0)\<close> a refresh with the table \<open>{(1, 1, 0)}\<close>
  leaves the pose at \<open>(1, 2, 0)\<close>: it is not the default pose and matches no record of the
  current table. And a table with two rows for \<open>(1, 2, 0)\<close> gives two matching records.
\<close>

theorem C7_counterexample:
  "reachable exampleGetValueB exampleGetValueN
     (exampleRefresh None [(1, 1, 0)] (move ''d'' 1 (loaded None [(1, 1, 0), (1, 2, 0)])))
   \<and> pose (exampleRefresh None [(1, 1, 0)] (move ''d'' 1 (loaded None [(1, 1, 0), (1, 2, 0)])))
       = (1, 2, 0)
   \<and> filter (matches (1, 2, 0))
        (positionTable
          (exampleRefresh None [(1, 1, 0)] (move ''d'' 1 (loaded None [(1, 1, 0), (1, 2, 0)]))))
       = []
   \<and> reachable exampleGetValueB exampleGetValueN
        (move ''d'' 1 (loaded None [(1, 1, 0), (1, 2, 0), (1, 2, 0)]))
   \<and> pose (move ''d'' 1 (loaded None [(1, 1, 0), (1, 2, 0), (1, 2, 0)])) = (1, 2, 0)
   \<and> length (filter (matches (1, 2, 0))
        (positionTable (move ''d'' 1 (loaded None [(1, 1, 0), (1, 2, 0), (1, 2, 0)])))) = 2"
proof -
  let ?a = "loaded None [(1, 1, 0), (1, 2, 0)]"
  let ?c = "exampleRefresh None [(1, 1, 0)] (move ''d'' 1 ?a)"
  let ?d = "loaded None [(1, 1, 0), (1, 2, 0), (1, 2, 0)]"
  have r: "reachable exampleGetValueB exampleGetValueN ?c"
    unfolding exampleRefresh_def
    by (intro reachable_refresh reachable_move reachable_loaded) simp
  have t: "newPose ''d'' 1 ?a = (1, 2, 0)"
    by (simp add: newPose_translate dh_table dv_table example_defs)
  have c: "commits ''d'' 1 ?a"
    unfolding commits_def t
    by (simp add: example_defs matches_def positionMetadata_def)
  have p: "pose ?c = (1, 2, 0)"
    using c t by (simp add: exampleRefresh_def pose_move_cases)
  have e: "filter (matches (1, 2, 0)) (positionTable ?c) = []"
    by (simp add: example_defs matches_def positionMetadata_def)
  have r': "reachable exampleGetValueB exampleGetValueN (move ''d'' 1 ?d)"
    by (intro reachable_move reachable_loaded) simp
  have t': "newPose ''d'' 1 ?d = (1, 2, 0)"
    by (simp add: newPose_translate dh_table dv_table example_defs)
  have c': "commits ''d'' 1 ?d"
    unfolding commits_def t'
    by (simp add: example_defs matches_def positionMetadata_def)
  have p': "pose (move ''d'' 1 ?d) = (1, 2, 0)"
    using c' t' by (simp add: pose_move_cases)
  have n': "length (filter (matches (1, 2, 0)) (positionTable (move ''d'' 1 ?d))) = 2"
    unfolding positionTable_move
    by (simp add: example_defs matches_def positionMetadata_def)
  show ?thesis
    using r p e r' p' n' by simp
qed

subsection \<open>The settings\<close>

lemma visualTransform_settings:
  assumes "visualTransform getValueB getValueN (dataView # rest) = Inr vm"
  shows "settings vm =
           \<lparr>horizontal = getValueB (objects dataView) ''settings'' ''horizontal'' True,
            vertical = getValueB (objects dataView) ''settings'' ''vertical'' True,
            incremental = getValueN (objects dataView) ''settings'' ''incremental'' 1\<rparr>"
  using assms unfolding visualTransform_def Let_def
  by (auto split: prod.splits option.splits list.splits sum.splits)

lemma update_settings:
  assumes "update getValueB getValueN (dataView # rest) v = Inr v'"
  shows "visualSettings v' =
           Some \<lparr>horizontal = getValueB (objects dataView) ''settings'' ''horizontal'' True,
                 vertical = getValueB (objects dataView) ''settings'' ''vertical'' True,
                 incremental = getValueN (objects dataView) ''settings'' ''incremental'' 1\<rparr>"
proof (cases "visualTransform getValueB getValueN (dataView # rest)")
  case (Inl e)
  with assms show ?thesis by (simp add: update_def)
next
  case (Inr vm)
  with assms visualTransform_settings [OF Inr] show ?thesis
    by (auto simp: update_def)
qed

lemma newPose_withSettings [simp]:
  "newPose direction stp (withSettings st v) = newPose direction stp v"
  by (simp add: newPose_def withSettings_def Let_def)

lemma positionTable_withSettings [simp]:
  "positionTable (withSettings st v) = positionTable v"
  by (cases "viewModel v") (simp_all add: positionTable_def withSettings_def)

lemma commits_withSettings [simp]:
  "commits direction stp (withSettings st v) = commits direction stp v"
  by (simp add: commits_def)

lemma move_withSettings:
  "move direction stp (withSettings st v) = withSettings st (move direction stp v)"
proof (cases "commits direction stp v")
  case False
  then show ?thesis by (simp add: move_absent)
next
  case True
  then obtain first where
    f: "List.find (matches (newPose direction stp v)) (positionTable v) = Some first"
    by (auto simp: commits_iff_find)
  obtain h w r where p: "newPose direction stp v = (h, w, r)"
    by (cases "newPose direction stp v")
  from f p have f': "List.find (matches (newPose direction stp (withSettings st v)))
                       (positionTable (withSettings st v)) = Some first"
    and p': "newPose direction stp (withSettings st v) = (h, w, r)"
    by simp_all
  show ?thesis
    unfolding move_present [OF f p] move_present [OF f' p']
    by (simp add: withSettings_def)
qed

text \<open>What the code does with the step increment: a successful refresh reads it (with
  default 1) and stores it with the settings, and a move never looks at it. The target
  pose and the whole effect of a move are the same whatever the settings are.\<close>

lemma increment_read_but_unused:
  assumes "update getValueB getValueN (dataView # rest) v = Inr v'"
  shows "map_option incremental (visualSettings v')
           = Some (getValueN (objects dataView) ''settings'' ''incremental'' 1)
         \<and> newPose direction stp (withSettings st v') = newPose direction stp v'
         \<and> move direction stp (withSettings st v') = withSettings st (move direction stp v')"
  using update_settings [OF assms] by (simp add: move_withSettings)

text \<open>
  C8. The claim does not hold of the code. The step increment is documented (line 65),
  read on each refresh with default 1 (line 154), stored, and offered to the user with the
  range 1 to 100 (lines 350--358), and the two settings beside it are put to use by
  \<^verbatim>\<open>update\<close> (lines 270--279); yet \<^verbatim>\<open>step\<close> fixes \<^verbatim>\<open>displacement = 1\<close> and
  \<^verbatim>\<open>rotationStep = 45\<close>. With the step increment set to 2 and records for \<open>(1, 2, 0)\<close>,
  \<open>(1, 3, 0)\<close>, \<open>(1, 1, 45)\<close> and \<open>(1, 1, 90)\<close> in the table, a translate move from
  \<open>(1, 1, 0)\<close> goes to \<open>(1, 2, 0)\<close> and a rotate move to \<open>(1, 1, 45)\<close>, exactly as with the
  increment 1: one unit and 45 degrees, not two units and 90 degrees, although the
  records two units and 90 degrees away are there.
\<close>

theorem C8_increment_ignored:
  "map_option incremental
     (visualSettings (loaded (Some 2) [(1, 1, 0), (1, 2, 0), (1, 3, 0), (1, 1, 45), (1, 1, 90)]))
     = Some 2
   \<and> map_option incremental
       (visualSettings (loaded None [(1, 1, 0), (1, 2, 0), (1, 3, 0), (1, 1, 45), (1, 1, 90)]))
       = Some 1
   \<and> pose (loaded (Some 2) [(1, 1, 0), (1, 2, 0), (1, 3, 0), (1, 1, 45), (1, 1, 90)]) = (1, 1, 0)
   \<and> pose (move ''d'' 1 (loaded (Some 2) [(1, 1, 0), (1, 2, 0), (1, 3, 0), (1, 1, 45), (1, 1, 90)]))
       = (1, 2, 0)
   \<and> pose (move ''d'' 1 (loaded None [(1, 1, 0), (1, 2, 0), (1, 3, 0), (1, 1, 45), (1, 1, 90)]))
       = (1, 2, 0)
   \<and> pose (move ''r'' 1 (loaded (Some 2) [(1, 1, 0), (1, 2, 0), (1, 3, 0), (1, 1, 45), (1, 1, 90)]))
       = (1, 1, 45)
   \<and> pose (move ''r'' 1 (loaded None [(1, 1, 0), (1, 2, 0), (1, 3, 0), (1, 1, 45), (1, 1, 90)]))
       = (1, 1, 45)
   \<and> list_ex (matches (1, 3, 0))
       (positionTable (loaded (Some 2) [(1, 1, 0), (1, 2, 0), (1, 3, 0), (1, 1, 45), (1, 1, 90)]))
   \<and> list_ex (matches (1, 1, 90))
       (positionTable (loaded (Some 2) [(1, 1, 0), (1, 2, 0), (1, 3, 0), (1, 1, 45), (1, 1, 90)]))"
proof -
  let ?rows = "[(1, 1, 0), (1, 2, 0), (1, 3, 0), (1, 1, 45), (1, 1, 90)] :: (int \<times> int \<times> int) list"
  have i2: "map_option incremental (visualSettings (loaded (Some 2) ?rows)) = Some 2"
    and i1: "map_option incremental (visualSettings (loaded None ?rows)) = Some 1"
    and p: "pose (loaded (Some 2) ?rows) = (1, 1, 0)"
    by (simp_all add: example_defs pose_def)
  have td: "newPose ''d'' 1 (loaded objs ?rows) = (1, 2, 0)" for objs
    by (simp add: newPose_translate dh_table dv_table example_defs)
  have tr: "newPose ''r'' 1 (loaded objs ?rows) = (1, 1, 45)" for objs
    by (simp add: newPose_rotate example_defs)
  have cd: "commits ''d'' 1 (loaded objs ?rows)" for objs
    unfolding commits_def td
    by (simp add: example_defs matches_def positionMetadata_def)
  have cr: "commits ''r'' 1 (loaded objs ?rows)" for objs
    unfolding commits_def tr
    by (simp add: example_defs matches_def positionMetadata_def)
  have far: "list_ex (matches (1, 3, 0)) (positionTable (loaded (Some 2) ?rows))"
            "list_ex (matches (1, 1, 90)) (positionTable (loaded (Some 2) ?rows))"
    by (simp_all add: example_defs matches_def positionMetadata_def)
  show ?thesis
    using i2 i1 p far by (simp add: pose_move_cases cd cr td tr)
qed

subsection \<open>A refresh with a role left unmapped\<close>

lemma error_is_TypeError: "(e :: error) = TypeError"
  by (cases e) simp

lemma transformValues_undefined:
  assumes "horizontalCategory = None \<or> verticalCategory = None \<or> rotationCategory = None"
      and "xs \<noteq> []"
  shows "transformValues i xs horizontalCategory verticalCategory rotationCategory = Inl TypeError"
proof (cases xs)
  case Nil
  with assms(2) show ?thesis by simp
next
  case (Cons x rest)
  with assms(1) show ?thesis
    by (auto simp: valueString_def error_is_TypeError split: option.splits sum.splits)
qed

text \<open>Any data view with a role that resolves to no category and at least one value in
  category 0 makes the transformation raise.\<close>

lemma visualTransform_unmapped_role:
  assumes "categories view = Some (c0 # cs)" and "values' c0 \<noteq> []"
      and "scanColumns 0 (columns view) ([], [], [], []) = (hn, vn, rn, sb)"
      and "scanCategories 0 (c0 # cs) (hn, vn, rn) (- 1, - 1, - 1) = (hi, vi, ri)"
      and "hi = - 1 \<or> vi = - 1 \<or> ri = - 1"
  shows "visualTransform getValueB getValueN (view # rest) = Inl TypeError"
proof -
  let ?h = "if hi > - 1 then categoryAt (c0 # cs) hi else None"
  let ?v = "if vi > - 1 then categoryAt (c0 # cs) vi else None"
  let ?r = "if ri > - 1 then categoryAt (c0 # cs) ri else None"
  from assms(5) have "?h = None \<or> ?v = None \<or> ?r = None" by auto
  then have "transformValues 0 (values' c0) ?h ?v ?r = Inl TypeError"
    using assms(2) by (rule transformValues_undefined)
  then show ?thesis
    using assms(1,3,4) by (simp add: visualTransform_def Let_def)
qed

lemma empty_table_noop: "positionTable v = [] \<Longrightarrow> move direction stp v = v"
  by (rule move_absent) (simp add: commits_def)

text \<open>
  C9. The claim does not hold of the code. With the rotation role unmapped and one row
  of data, \<^verbatim>\<open>visualTransform\<close> raises a TypeError (line 173 reads
  \<^verbatim>\<open>rotationCategory.values\<close> of an undefined variable), \<^verbatim>\<open>update\<close> raises with it, the
  view model is never assigned, and a following move raises as well instead of finding
  an empty table. Only with no rows at all is the result an empty table.
\<close>

theorem C9_missing_role_raises:
  "visualTransform exampleGetValueB exampleGetValueN [exampleViewNoRotation [(1, 1)]]
     = Inl TypeError
   \<and> update exampleGetValueB exampleGetValueN [exampleViewNoRotation [(1, 1)]] Visual_constructor
       = Inl TypeError
   \<and> viewModel (refresh exampleGetValueB exampleGetValueN [exampleViewNoRotation [(1, 1)]]
        Visual_constructor) = None
   \<and> step ''d'' 1 (refresh exampleGetValueB exampleGetValueN [exampleViewNoRotation [(1, 1)]]
        Visual_constructor) = Inl TypeError
   \<and> (case visualTransform exampleGetValueB exampleGetValueN [exampleViewNoRotation []] of
        Inl e \<Rightarrow> None
      | Inr vm \<Rightarrow> Some (dataPoints vm)) = Some []"
  by (simp add: example_defs step_def)

text \<open>
  C10. For a direction other than \<open>d\<close> and \<open>r\<close> the target pose is the current pose, and
  the pose of the control is the same after the call. When the current pose matches a
  record of the table, the selection service still receives the id of the first such
  record; otherwise nothing happens at all.
\<close>

theorem C10_other_direction:
  assumes "direction \<noteq> ''d''" and "direction \<noteq> ''r''"
  shows "newPose direction stp v = pose v
         \<and> pose (move direction stp v) = pose v
         \<and> (if list_ex (matches (pose v)) (positionTable v)
            then \<exists>first. List.find (matches (pose v)) (positionTable v) = Some first
                   \<and> selectionManager (move direction stp v)
                       = selectionManager v @ [selectionId first]
            else move direction stp v = v)"
proof -
  have t: "newPose direction stp v = pose v"
    using assms by (rule newPose_other)
  have c: "commits direction stp v = list_ex (matches (pose v)) (positionTable v)"
    by (simp add: commits_def t)
  have p: "pose (move direction stp v) = pose v"
    by (simp add: pose_move_cases t)
  show ?thesis
  proof (cases "list_ex (matches (pose v)) (positionTable v)")
    case False
    then show ?thesis using t p c move_absent [of direction stp v] by simp
  next
    case True
    then obtain first where
      f: "List.find (matches (newPose direction stp v)) (positionTable v) = Some first"
      using c by (auto simp: commits_iff_find)
    obtain h w r where q: "newPose direction stp v = (h, w, r)"
      by (cases "newPose direction stp v")
    have "selectionManager (move direction stp v) = selectionManager v @ [selectionId first]"
      using move_present [OF f q] by simp
    then show ?thesis using True t p f by simp
  qed
qed

theorem C10_other_direction_witness:
  "''x'' \<noteq> ''d'' \<and> ''x'' \<noteq> ''r''
   \<and> list_ex (matches (pose (loaded None [(1, 1, 0)]))) (positionTable (loaded None [(1, 1, 0)]))
   \<and> pose (move ''x'' 1 (loaded None [(1, 1, 0)])) = (1, 1, 0)
   \<and> selectionManager (move ''x'' 1 (loaded None [(1, 1, 0)]))
       = [\<lparr>withCategory = (''X'', 0), metadata = Some ''X1Y1V0''\<rparr>]"
proof -
  let ?v = "loaded None [(1, 1, 0)]"
  have p: "pose ?v = (1, 1, 0)" and s: "selectionManager ?v = []"
    by (simp_all add: example_defs pose_def)
  have f: "List.find (matches (1, 1, 0)) (positionTable ?v)
             = Some \<lparr>category = ''1'', selectionId =
                 \<lparr>withCategory = (''X'', 0), metadata = Some ''X1Y1V0''\<rparr>\<rparr>"
    by (simp add: example_defs matches_def positionMetadata_def)
  have e: "list_ex (matches (1, 1, 0)) (positionTable ?v)"
    by (simp add: example_defs matches_def positionMetadata_def)
  have d: "''x'' \<noteq> ''d''" "''x'' \<noteq> ''r''" by simp_all
  show ?thesis
    using C10_other_direction [OF d, of 1 ?v] e f s d unfolding p by auto
qed

end
